theory Spec2Isabelle
  imports Main "HOL-Library.AList"
begin

section \<open>JavaScript values as the forwarder sees them\<close>

text \<open>
  The forwarder in \<^verbatim>\<open>index.js\<close> receives plain objects from its three sources and
  handles them with four operations of the language: a property read, a truthiness test,
  the coercion \<^verbatim>\<open>String(v)\<close> and \<^verbatim>\<open>JSON.stringify\<close>. The values are modelled
  by a datatype; strings are lists of \<^typ>\<open>char\<close>.

  A number is \<^verbatim>\<open>NaN\<close>, an infinity (negative or not), or a finite number. The
  language defines the text of a finite number from the digits and the exponent of its
  shortest decimal form, so a finite number is given here by these: \<open>Finite s n\<close> has
  the sign of the integer \<open>s\<close> and the size \<open>0.d \<times> 10\<^sup>n\<close>, where \<open>d\<close> are the
  decimal digits of \<open>\<bar>s\<bar>\<close> without its trailing zeros. So \<open>Finite 1 22\<close> is
  \<^verbatim>\<open>1e21\<close>, \<open>Finite (- 25) 0\<close> is \<^verbatim>\<open>-0.25\<close> and \<open>Finite 0 n\<close> is zero.
  (The two zeros of the language, which the forwarder cannot tell apart, are one
  here.)

  An object is the list of its own enumerable properties in the order of their
  creation.
\<close>

datatype jsnum = NaN | Infinity bool | Finite int int

datatype jsval =
    JUndefined
  | JNull
  | JBool bool
  | JNum jsnum
  | JStr string
  | JArr "jsval list"
  | JObj "(string \<times> jsval) list"

type_synonym jsobject = "(string \<times> jsval) list"

text \<open>The object has an own property of this name.\<close>

definition present :: "jsobject \<Rightarrow> string \<Rightarrow> bool" where
  "present obj key \<longleftrightarrow> map_of obj key \<noteq> None"

text \<open>
  \<^verbatim>\<open>obj.key\<close>: the value of the own property, \<^verbatim>\<open>undefined\<close> when there is none.
  The names that the forwarder reads (\<^verbatim>\<open>line\<close>, \<^verbatim>\<open>type\<close>, \<^verbatim>\<open>stats\<close>,
  \<^verbatim>\<open>name\<close>, \<^verbatim>\<open>image\<close>) are not properties of \<^verbatim>\<open>Object.prototype\<close>.
\<close>

definition get :: "jsobject \<Rightarrow> string \<Rightarrow> jsval" where
  "get obj key = (case map_of obj key of None \<Rightarrow> JUndefined | Some v \<Rightarrow> v)"

text \<open>
  \<^verbatim>\<open>obj[key] = v\<close>: an existing property keeps its place, a new one is created last.
  The name \<^verbatim>\<open>__proto__\<close> is the exception: on an object without an own property of
  that name the assignment goes to the setter that \<^verbatim>\<open>Object.prototype\<close> provides,
  and no own property is made. (For a value that is an object the setter replaces the
  prototype; properties read through a replaced prototype are not followed here.)
\<close>

definition assign :: "jsobject \<Rightarrow> string \<Rightarrow> jsval \<Rightarrow> jsobject" where
  "assign obj key v =
     (if key = ''__proto__'' \<and> \<not> present obj key then obj else AList.update key v obj)"

text \<open>
  The order in which \<^verbatim>\<open>for .. in\<close> and \<^verbatim>\<open>JSON.stringify\<close> visit the own
  properties: first the array indices (the canonical decimal names of the integers up
  to \<open>2\<^sup>3\<^sup>2 - 2\<close>) in ascending order, then the other names in the order of creation.
\<close>

definition is_digit :: "char \<Rightarrow> bool" where
  "is_digit c \<longleftrightarrow> c \<in> set ''0123456789''"

definition digit_value :: "char \<Rightarrow> int" where
  "digit_value c = of_char c - 48"

definition numeral_value :: "string \<Rightarrow> int" where
  "numeral_value key = foldl (\<lambda>n c. 10 * n + digit_value c) 0 key"

definition array_index :: "string \<Rightarrow> int option" where
  "array_index key =
     (case key of
        [] \<Rightarrow> None
      | c # cs \<Rightarrow>
          if list_all is_digit key \<and> (c \<noteq> CHR ''0'' \<or> cs = []) \<and> length key \<le> 10
             \<and> numeral_value key \<le> 4294967294
          then Some (numeral_value key) else None)"

definition index_key :: "string \<times> jsval \<Rightarrow> int" where
  "index_key p = (case array_index (fst p) of None \<Rightarrow> 0 | Some i \<Rightarrow> i)"

definition js_order :: "jsobject \<Rightarrow> jsobject" where
  "js_order obj =
     sort_key index_key (filter (\<lambda>p. array_index (fst p) \<noteq> None) obj)
     @ filter (\<lambda>p. array_index (fst p) = None) obj"

text \<open>The truthiness test of \<^verbatim>\<open>if (v)\<close>.\<close>

fun truthy_number :: "jsnum \<Rightarrow> bool" where
  "truthy_number NaN = False"
| "truthy_number (Infinity negative) = True"
| "truthy_number (Finite s n) = (s \<noteq> 0)"

fun truthy :: "jsval \<Rightarrow> bool" where
  "truthy JUndefined = False"
| "truthy JNull = False"
| "truthy (JBool b) = b"
| "truthy (JNum x) = truthy_number x"
| "truthy (JStr s) = (s \<noteq> [])"
| "truthy (JArr vs) = True"
| "truthy (JObj ps) = True"

subsection \<open>The text of a number\<close>

text \<open>Decimal digits of a positive integer, most significant first.\<close>

function digits :: "int \<Rightarrow> string" where
  "digits n =
     (if n < 10 then [''0123456789'' ! nat n]
      else digits (n div 10) @ [''0123456789'' ! nat (n mod 10)])"
  by pat_completeness auto
termination
  by (relation "measure nat") auto

declare digits.simps [simp del]

function strip_zeros :: "int \<Rightarrow> int" where
  "strip_zeros s = (if 0 < s \<and> s mod 10 = 0 then strip_zeros (s div 10) else s)"
  by pat_completeness auto
termination
  by (relation "measure nat") auto

declare strip_zeros.simps [simp del]

text \<open>
  \<^verbatim>\<open>Number::toString\<close> for a positive finite number with the \<open>k\<close> digits \<open>ds\<close>
  and the exponent \<open>n\<close>: an integer in full up to \<open>10\<^sup>2\<^sup>1\<close>, a decimal fraction in
  full down to \<open>10\<^sup>-\<^sup>6\<close>, the exponent notation otherwise.
\<close>

definition positive_text :: "string \<Rightarrow> int \<Rightarrow> string" where
  "positive_text ds n =
     (let k = int (length ds) in
      if k \<le> n \<and> n \<le> 21 then ds @ replicate (nat (n - k)) (CHR ''0'')
      else if 0 < n \<and> n \<le> 21 then take (nat n) ds @ ''.'' @ drop (nat n) ds
      else if - 6 < n \<and> n \<le> 0 then ''0.'' @ replicate (nat (- n)) (CHR ''0'') @ ds
      else (if k = 1 then ds else take 1 ds @ ''.'' @ drop 1 ds)
           @ ''e'' @ (if 0 < n - 1 then ''+'' else ''-'') @ digits \<bar>n - 1\<bar>)"

fun Number_toString :: "jsnum \<Rightarrow> string" where
  "Number_toString NaN = ''NaN''"
| "Number_toString (Infinity negative) = (if negative then ''-Infinity'' else ''Infinity'')"
| "Number_toString (Finite s n) =
     (if s = 0 then ''0''
      else (if s < 0 then ''-'' else []) @ positive_text (digits (strip_zeros \<bar>s\<bar>)) n)"

subsection \<open>\<^verbatim>\<open>String(v)\<close>\<close>

text \<open>
  An array is the comma-joined text of its elements, where \<^verbatim>\<open>null\<close> and
  \<^verbatim>\<open>undefined\<close> elements give the empty text; a plain object is
  \<^verbatim>\<open>[object Object]\<close>.
\<close>

fun to_String :: "jsval \<Rightarrow> string"
  and join_elems :: "jsval list \<Rightarrow> string" where
  "to_String JUndefined = ''undefined''"
| "to_String JNull = ''null''"
| "to_String (JBool b) = (if b then ''true'' else ''false'')"
| "to_String (JNum x) = Number_toString x"
| "to_String (JStr s) = s"
| "to_String (JArr vs) = join_elems vs"
| "to_String (JObj ps) = ''[object Object]''"
| "join_elems [] = []"
| "join_elems [v] =
     (case v of JUndefined \<Rightarrow> [] | JNull \<Rightarrow> [] | _ \<Rightarrow> to_String v)"
| "join_elems (v # w # vs) =
     (case v of JUndefined \<Rightarrow> [] | JNull \<Rightarrow> [] | _ \<Rightarrow> to_String v) @ '','' @ join_elems (w # vs)"

subsection \<open>\<^verbatim>\<open>JSON.stringify\<close>\<close>

text \<open>
  A string is quoted; the quote, the backslash and the characters below \<^verbatim>\<open>0x20\<close> are
  escaped, the latter by their short form where JSON has one and as \<^verbatim>\<open>\u00XX\<close>
  otherwise.
\<close>

definition hex_digit :: "nat \<Rightarrow> char" where
  "hex_digit n = ''0123456789abcdef'' ! n"

definition quote_char :: "char \<Rightarrow> string" where
  "quote_char c =
     (if c = CHR 0x22 then [CHR 0x5C, CHR 0x22]
      else if c = CHR 0x5C then [CHR 0x5C, CHR 0x5C]
      else if c = CHR 0x08 then [CHR 0x5C, CHR ''b'']
      else if c = CHR 0x0C then [CHR 0x5C, CHR ''f'']
      else if c = CHR 0x0A then [CHR 0x5C, CHR ''n'']
      else if c = CHR 0x0D then [CHR 0x5C, CHR ''r'']
      else if c = CHR 0x09 then [CHR 0x5C, CHR ''t'']
      else if (of_char c :: nat) < 32
        then [CHR 0x5C, CHR ''u'', CHR ''0'', CHR ''0'',
              hex_digit ((of_char c :: nat) div 16), hex_digit ((of_char c :: nat) mod 16)]
      else [c])"

definition quote :: "string \<Rightarrow> string" where
  "quote s = CHR 0x22 # concat (map quote_char s) @ [CHR 0x22]"

fun commas :: "string list \<Rightarrow> string" where
  "commas [] = []"
| "commas [t] = t"
| "commas (t # u # ts) = t @ '','' @ commas (u # ts)"

text \<open>
  The properties of every object of a value, put in the order in which they are
  visited.
\<close>

fun enumerated :: "jsval \<Rightarrow> jsval"
  and enumerated_props :: "(string \<times> jsval) list \<Rightarrow> (string \<times> jsval) list"
  and enumerated_elems :: "jsval list \<Rightarrow> jsval list" where
  "enumerated (JObj ps) = JObj (js_order (enumerated_props ps))"
| "enumerated (JArr vs) = JArr (enumerated_elems vs)"
| "enumerated JUndefined = JUndefined"
| "enumerated JNull = JNull"
| "enumerated (JBool b) = JBool b"
| "enumerated (JNum x) = JNum x"
| "enumerated (JStr s) = JStr s"
| "enumerated_props [] = []"
| "enumerated_props ((k, v) # ps) = (k, enumerated v) # enumerated_props ps"
| "enumerated_elems [] = []"
| "enumerated_elems (v # vs) = enumerated v # enumerated_elems vs"

text \<open>
  \<open>stringify v\<close>, for a value whose properties are in the order of the visit, is
  \<open>None\<close> where \<^verbatim>\<open>JSON.stringify\<close> answers \<^verbatim>\<open>undefined\<close>. A property whose
  value is \<^verbatim>\<open>undefined\<close> is left out of its object, and an \<^verbatim>\<open>undefined\<close> array
  element is written \<^verbatim>\<open>null\<close>, as is a number that is not finite.
\<close>

fun stringify_number :: "jsnum \<Rightarrow> string" where
  "stringify_number NaN = ''null''"
| "stringify_number (Infinity negative) = ''null''"
| "stringify_number (Finite s n) = Number_toString (Finite s n)"

fun stringify :: "jsval \<Rightarrow> string option"
  and members :: "(string \<times> jsval) list \<Rightarrow> string list"
  and elements :: "jsval list \<Rightarrow> string list" where
  "stringify JUndefined = None"
| "stringify JNull = Some ''null''"
| "stringify (JBool b) = Some (if b then ''true'' else ''false'')"
| "stringify (JNum x) = Some (stringify_number x)"
| "stringify (JStr s) = Some (quote s)"
| "stringify (JArr vs) = Some (''['' @ commas (elements vs) @ '']'')"
| "stringify (JObj ps) = Some (''{'' @ commas (members ps) @ ''}'')"
| "members [] = []"
| "members ((k, v) # ps) =
     (case stringify v of
        None \<Rightarrow> members ps
      | Some t \<Rightarrow> (quote k @ '':'' @ t) # members ps)"
| "elements [] = []"
| "elements (v # vs) =
     (case stringify v of None \<Rightarrow> ''null'' | Some t \<Rightarrow> t) # elements vs"

text \<open>\<^verbatim>\<open>JSON.stringify(obj)\<close> for an object \<open>obj\<close>: always a text.\<close>

definition JSON_stringify :: "jsobject \<Rightarrow> string" where
  "JSON_stringify obj = ''{'' @ commas (members (js_order (enumerated_props obj))) @ ''}''"


section \<open>The configuration\<close>

text \<open>
  The fields of \<^verbatim>\<open>opts\<close> that \<^verbatim>\<open>start\<close> and \<^verbatim>\<open>connect\<close> read. A token is
  \<open>None\<close> when the property is \<^verbatim>\<open>undefined\<close>; a channel flag is \<open>None\<close> when it
  is \<^verbatim>\<open>undefined\<close>, which \<^verbatim>\<open>!== false\<close> lets through; \<open>add\<close> is \<open>None\<close>
  when \<^verbatim>\<open>opts.add\<close> is falsy, and a plain object otherwise.
\<close>

record options =
  add :: "jsobject option"
  logstoken :: "string option"
  statstoken :: "string option"
  eventstoken :: "string option"
  matchByName :: string
  matchByImage :: string
  skipByName :: string
  skipByImage :: string
  logs :: "bool option"
  stats :: "bool option"
  dockerEvents :: "bool option"
  secure :: bool
  server :: string
  port :: int

text \<open>The truthiness of a token: a non-empty string.\<close>

fun truthy_token :: "string option \<Rightarrow> bool" where
  "truthy_token None = False"
| "truthy_token (Some t) = (t \<noteq> [])"

datatype error = Error string | SyntaxError | TypeError

section \<open>Enrichment: \<^verbatim>\<open>addAll\<close>\<close>

text \<open>
  The loop of lines 148--152 over the keys still to be visited. The test
  \<^verbatim>\<open>proto.hasOwnProperty(key)\<close> looks the method up on \<open>proto\<close> itself: when
  \<open>proto\<close> has an own property of that name, its value (a string from the command
  line, never a function in an enrichment set) is called, which throws a
  \<^verbatim>\<open>TypeError\<close>. Otherwise the method is the inherited one and answers
  \<^verbatim>\<open>true\<close> for every key of the visit, a plain object having no inherited
  enumerable properties; the body then assigns \<^verbatim>\<open>proto[key]\<close> to \<^verbatim>\<open>obj[key]\<close>.
  The object is changed in place; the model returns it.
\<close>

fun addAll_loop :: "jsobject \<Rightarrow> string list \<Rightarrow> jsobject \<Rightarrow> error + jsobject" where
  "addAll_loop proto [] obj = Inr obj"
| "addAll_loop proto (key # keys) obj =
     (if present proto ''hasOwnProperty'' then Inl TypeError
      else addAll_loop proto keys (assign obj key (get proto key)))"

text \<open>
  \<^verbatim>\<open>addAll(proto, obj)\<close>, lines 144--153: it returns at once on a falsy \<open>proto\<close>
  and visits the keys of \<open>proto\<close> otherwise.
\<close>

fun addAll :: "jsobject option \<Rightarrow> jsobject \<Rightarrow> error + jsobject" where
  "addAll None obj = Inr obj"
| "addAll (Some proto) obj = addAll_loop proto (map fst (js_order proto)) obj"

section \<open>The filter stage\<close>

text \<open>
  \<^verbatim>\<open>new RegExp(pattern)\<close> belongs to the runtime. It is a parameter of the model: an
  engine answers \<open>None\<close> for a pattern it rejects (the constructor throws a
  \<^verbatim>\<open>SyntaxError\<close>) and otherwise the test that \<^verbatim>\<open>text.match(regex)\<close> is not
  \<^verbatim>\<open>null\<close>.
\<close>

type_synonym RegExp = "string \<Rightarrow> (string \<Rightarrow> bool) option"

text \<open>Lines 43--53: the token of the first truthy field among line, type, stats.\<close>

definition select_token :: "options \<Rightarrow> jsobject \<Rightarrow> string option" where
  "select_token opts obj =
     (if truthy (get obj ''line'') then logstoken opts
      else if truthy (get obj ''type'') then eventstoken opts
      else if truthy (get obj ''stats'') then statstoken opts
      else Some [])"

text \<open>
  Lines 58--63 and 65--70: an inclusive check. \<open>passes\<close> is the variable
  \<^verbatim>\<open>passes_regex\<close> on entry, the result its value on exit.
\<close>

definition match_check :: "RegExp \<Rightarrow> string \<Rightarrow> jsval \<Rightarrow> bool \<Rightarrow> error + bool" where
  "match_check new_RegExp pattern field passes =
     (if pattern \<noteq> [] then
        (case new_RegExp pattern of
           None \<Rightarrow> Inl SyntaxError
         | Some regex \<Rightarrow> Inr (if \<not> regex (to_String field) then False else passes))
      else Inr passes)"

text \<open>Lines 72--77 and 79--84: an exclusive check.\<close>

definition skip_check :: "RegExp \<Rightarrow> string \<Rightarrow> jsval \<Rightarrow> bool \<Rightarrow> error + bool" where
  "skip_check new_RegExp pattern field passes =
     (if pattern \<noteq> [] then
        (case new_RegExp pattern of
           None \<Rightarrow> Inl SyntaxError
         | Some regex \<Rightarrow> Inr (if regex (to_String field) then False else passes))
      else Inr passes)"

text \<open>Lines 55--84: the four checks in the order of the source.\<close>

definition passes_regex :: "RegExp \<Rightarrow> options \<Rightarrow> jsobject \<Rightarrow> error + bool" where
  "passes_regex new_RegExp opts obj =
     (case match_check new_RegExp (matchByName opts) (get obj ''name'') True of
        Inl e \<Rightarrow> Inl e
      | Inr p1 \<Rightarrow>
     (case match_check new_RegExp (matchByImage opts) (get obj ''image'') p1 of
        Inl e \<Rightarrow> Inl e
      | Inr p2 \<Rightarrow>
     (case skip_check new_RegExp (skipByName opts) (get obj ''name'') p2 of
        Inl e \<Rightarrow> Inl e
      | Inr p3 \<Rightarrow> skip_check new_RegExp (skipByImage opts) (get obj ''image'') p3)))"

text \<open>
  Lines 41--94: the transform of the filter stream. The result is the list of chunks
  it pushes for one incoming object, or the error it throws.
\<close>

definition filter_js :: "RegExp \<Rightarrow> options \<Rightarrow> jsobject \<Rightarrow> error + string list" where
  "filter_js new_RegExp opts obj0 =
     (case addAll (add opts) obj0 of
        Inl e \<Rightarrow> Inl e
      | Inr obj \<Rightarrow>
          (let token = select_token opts obj
           in case passes_regex new_RegExp opts obj of
                Inl e \<Rightarrow> Inl e
              | Inr passes \<Rightarrow>
                  Inr (if truthy_token token \<and> passes
                       then [case token of None \<Rightarrow> [] | Some t \<Rightarrow> t, '' '',
                             JSON_stringify obj, [CHR 0x0A]]
                       else [])))"

subsection \<open>An engine for literal patterns\<close>

text \<open>
  One engine, for evaluating the filter on concrete patterns: it knows the patterns made
  of letters, digits, \<^verbatim>\<open>-\<close> and \<^verbatim>\<open>_\<close>, with an optional leading \<^verbatim>\<open>^\<close>.
  Such a pattern matches a text that contains it, or that starts with it when anchored.
  Every other pattern gets \<open>None\<close>: it is outside what this engine covers, and
  for some of them, the lone \<^verbatim>\<open>*\<close> for one, \<open>None\<close> is what the runtime answers
  too. The theorems below hold for every engine; this one only instantiates them.
\<close>

fun starts_with :: "string \<Rightarrow> string \<Rightarrow> bool" where
  "starts_with [] s = True"
| "starts_with (c # p) [] = False"
| "starts_with (c # p) (d # s) = (c = d \<and> starts_with p s)"

fun occurs_in :: "string \<Rightarrow> string \<Rightarrow> bool" where
  "occurs_in p [] = (p = [])"
| "occurs_in p (d # s) = (starts_with p (d # s) \<or> occurs_in p s)"

definition plain_char :: "char \<Rightarrow> bool" where
  "plain_char c \<longleftrightarrow> c \<in> set ''abcdefghijklmnopqrstuvwxyzABCDEFGHIJKLMNOPQRSTUVWXYZ0123456789-_''"

definition literal_RegExp :: RegExp where
  "literal_RegExp pattern =
     (case pattern of
        [] \<Rightarrow> Some (\<lambda>s. True)
      | c # p \<Rightarrow>
          if c = CHR ''^'' \<and> list_all plain_char p then Some (starts_with p)
          else if list_all plain_char pattern then Some (occurs_in pattern)
          else None)"

section \<open>Event kinds\<close>

text \<open>
  The source has no type of event kinds: the kind is implicit in which field the
  filter finds. For comparing the filter with its description the kind is made
  explicit, in two readings: \<open>kind_by_presence\<close> follows the words of the
  specification (the first field that is present), \<open>kind_by_truthiness\<close> the tests
  of lines 45--53 (the first field whose value is truthy). \<open>token_of\<close> is the token
  the specification assigns to a kind.
\<close>

datatype kind = LogLine | Lifecycle | Sample

definition kind_by_presence :: "jsobject \<Rightarrow> kind option" where
  "kind_by_presence obj =
     (if present obj ''line'' then Some LogLine
      else if present obj ''type'' then Some Lifecycle
      else if present obj ''stats'' then Some Sample
      else None)"

definition kind_by_truthiness :: "jsobject \<Rightarrow> kind option" where
  "kind_by_truthiness obj =
     (if truthy (get obj ''line'') then Some LogLine
      else if truthy (get obj ''type'') then Some Lifecycle
      else if truthy (get obj ''stats'') then Some Sample
      else None)"

fun token_of :: "options \<Rightarrow> kind \<Rightarrow> string option" where
  "token_of opts LogLine = logstoken opts"
| "token_of opts Lifecycle = eventstoken opts"
| "token_of opts Sample = statstoken opts"


section \<open>Start, reconnect and shutdown\<close>

text \<open>
  \<^verbatim>\<open>start\<close> wires three kinds of stream together and leaves callbacks behind; what
  happens later is the runtime calling them. The model keeps the variables of
  \<^verbatim>\<open>start\<close> in a record, together with what the runtime remembers (which stream
  the filter is piped to, which callbacks are still registered), and logs every call
  that leaves the program in \<open>trace\<close>, oldest first. A transport is named by the
  number of transports created before it.
\<close>

datatype channel = Loghose | Stats | DockerEvents

text \<open>
  The calls: the notice on the console; \<^verbatim>\<open>allContainers\<close>; a source factory with the
  pipe of its source into the filter; \<^verbatim>\<open>tls.connect\<close> and
  \<^verbatim>\<open>net.createConnection\<close> with the new transport, the port and the server;
  \<^verbatim>\<open>filter.unpipe\<close> and \<^verbatim>\<open>filter.pipe\<close>; \<^verbatim>\<open>eos\<close> on a transport and on a
  source; the removal of a transport's end-of-stream listeners by \<^verbatim>\<open>noRestart\<close>;
  \<^verbatim>\<open>destroy\<close>; and a chunk that the filter hands to a transport it is piped to.
\<close>

datatype effect =
    ConsoleLog string
  | AllContainers
  | Factory channel
  | TlsConnect nat int string
  | NetCreateConnection nat int string
  | Unpipe nat
  | Pipe nat
  | Eos nat
  | EosSource channel
  | RemoveEos nat
  | Destroy nat
  | Write nat string

text \<open>
  The variables of \<^verbatim>\<open>start\<close>: \<open>streamsOpened\<close>; the three source handles
  \<^verbatim>\<open>loghose\<close>, \<^verbatim>\<open>stats\<close> and \<^verbatim>\<open>dockerEvents\<close> (\<open>True\<close> once assigned; the
  last two are \<open>stats_stream\<close> and \<open>dockerEvents_stream\<close> here, the plain names being
  the flags of the configuration); \<open>out\<close>; and \<open>noRestart\<close>, which holds the transport
  whose end-of-stream listener it removes (\<open>None\<close> for the initial empty function).
  The runtime's side: \<open>piped\<close>, the transports that the program has piped the filter
  to and not unpiped again; \<open>restart_on\<close>, the
  transports with a pending \<^verbatim>\<open>eos(out, pipe)\<close> callback; \<open>watched\<close>, the sources
  with a pending end-of-stream callback; \<open>onSecure\<close>, the transports with a pending
  \<^verbatim>\<open>onSecure\<close> callback; \<open>created\<close>, the number of transports made so far;
  \<open>filter_ended\<close>, whether the filter stream has been ended.
\<close>

record state =
  streamsOpened :: int
  loghose :: bool
  stats_stream :: bool
  dockerEvents_stream :: bool
  out :: "nat option"
  noRestart :: "nat option"
  piped :: "nat list"
  restart_on :: "nat list"
  watched :: "channel list"
  onSecure :: "nat list"
  created :: nat
  filter_ended :: bool
  trace :: "effect list"

text \<open>A throw ends the process; the error comes with the trace up to it.\<close>

type_synonym 'a result = "(error \<times> effect list) + 'a"

text \<open>Lines 18--32.\<close>

definition connect :: "options \<Rightarrow> state \<Rightarrow> nat \<times> state" where
  "connect opts s =
     (let stream = created s in
      if secure opts
      then (stream, s\<lparr>created := Suc stream, onSecure := onSecure s @ [stream],
                      trace := trace s @ [TlsConnect stream (port opts) (server opts)]\<rparr>)
      else (stream, s\<lparr>created := Suc stream,
                      trace := trace s @ [NetCreateConnection stream (port opts) (server opts)]\<rparr>))"

text \<open>Lines 155--166.\<close>

definition pipe :: "options \<Rightarrow> state \<Rightarrow> state" where
  "pipe opts s =
     (let s = (case out s of
                 None \<Rightarrow> s
               | Some old \<Rightarrow> s\<lparr>piped := removeAll old (piped s), trace := trace s @ [Unpipe old]\<rparr>);
          (stream, s) = connect opts s;
          s = s\<lparr>out := Some stream\<rparr>;
          s = s\<lparr>piped := piped s @ [stream], trace := trace s @ [Pipe stream]\<rparr>
      in s\<lparr>noRestart := Some stream, restart_on := restart_on s @ [stream],
            trace := trace s @ [Eos stream]\<rparr>)"

text \<open>Lines 168--173.\<close>

definition streamClosed :: "int \<Rightarrow> state \<Rightarrow> state result" where
  "streamClosed n s =
     (if n \<le> 0 then
        (let s = (case noRestart s of
                    None \<Rightarrow> s
                  | Some t \<Rightarrow> s\<lparr>restart_on := removeAll t (restart_on s),
                                  trace := trace s @ [RemoveEos t]\<rparr>)
         in case out s of
              None \<Rightarrow> Inl (TypeError, trace s)
            | Some t \<Rightarrow> Inr (s\<lparr>trace := trace s @ [Destroy t]\<rparr>))
      else Inr s)"

text \<open>The conditions of lines 104, 110 and 116.\<close>

fun channel_on :: "options \<Rightarrow> channel \<Rightarrow> bool" where
  "channel_on opts Loghose = (logs opts \<noteq> Some False \<and> truthy_token (logstoken opts))"
| "channel_on opts Stats = (stats opts \<noteq> Some False \<and> truthy_token (statstoken opts))"
| "channel_on opts DockerEvents = (dockerEvents opts \<noteq> Some False \<and> truthy_token (eventstoken opts))"

text \<open>
  The variables of \<^verbatim>\<open>start\<close> as they are declared at lines 38--39 and 97--100,
  after the notice of line 36 and the call of line 96.
\<close>

definition initial :: state where
  "initial =
     \<lparr>streamsOpened = 0, loghose = False, stats_stream = False, dockerEvents_stream = False,
      out = None, noRestart = None, piped = [], restart_on = [], watched = [], onSecure = [],
      created = 0, filter_ended = False,
      trace = [ConsoleLog ''Started successfully, streaming logs ...'', AllContainers]\<rparr>"

fun set_handle :: "channel \<Rightarrow> state \<Rightarrow> state" where
  "set_handle Loghose s = s\<lparr>loghose := True\<rparr>"
| "set_handle Stats s = s\<lparr>stats_stream := True\<rparr>"
| "set_handle DockerEvents s = s\<lparr>dockerEvents_stream := True\<rparr>"

fun has_source :: "state \<Rightarrow> channel \<Rightarrow> bool" where
  "has_source s Loghose = loghose s"
| "has_source s Stats = stats_stream s"
| "has_source s DockerEvents = dockerEvents_stream s"

text \<open>
  Lines 104--108, 110--114 and 116--120, one block per channel: the factory makes the
  source, the source is piped into the filter, the count goes up.
\<close>

definition open_source :: "options \<Rightarrow> channel \<Rightarrow> state \<Rightarrow> state" where
  "open_source opts c s =
     (if channel_on opts c
      then (set_handle c s)\<lparr>streamsOpened := streamsOpened s + 1, trace := trace s @ [Factory c]\<rparr>
      else s)"

text \<open>
  Lines 129--132, 133--136 and 137--140, one block per channel: a source that exists
  gets its end-of-stream callback.
\<close>

definition watch_source :: "channel \<Rightarrow> state \<Rightarrow> state" where
  "watch_source c s =
     (if has_source s c
      then s\<lparr>watched := watched s @ [c], trace := trace s @ [EosSource c]\<rparr>
      else s)"

text \<open>Lines 35--142, up to the return.\<close>

definition start :: "options \<Rightarrow> state result" where
  "start opts =
     (let s = initial;
          s = open_source opts Loghose s;
          s = open_source opts Stats s;
          s = open_source opts DockerEvents s
      in if \<not> stats_stream s \<and> \<not> loghose s \<and> \<not> dockerEvents_stream s
         then Inl (Error ''You must provide a key for at least one of logs, stats, or dockerEvents'',
                   trace s)
         else
           (let s = pipe opts s;
                s = watch_source Loghose s;
                s = watch_source Stats s;
                s = watch_source DockerEvents s
            in Inr s))"

text \<open>
  What the runtime does afterwards, one signal per event:
  \<^item> \<open>Data c obj\<close>: source \<open>c\<close> emits an object. While the filter has not been
    ended, the runtime calls its transform with the object, and what the transform
    pushes is handed, chunk by chunk, to the transports the filter is piped to
    (buffering and back-pressure are left out). Once the filter has been ended the
    transform is not called any more.
  \<^item> \<open>Ended c\<close>: source \<open>c\<close> ends gracefully. Lines 106, 112 and 118 pipe the
    sources into the filter with the default options, under which the runtime ends
    the destination when a source ends: the filter is ended. Then the end-of-stream
    callback of the source is due.
  \<^item> \<open>Failed c\<close>: source \<open>c\<close> ends by an error or is closed before its end. The
    end-of-stream callback of the source is due; the filter is left alone.
  \<^item> \<open>Closed t\<close>: transport \<open>t\<close> has ended; its end-of-stream callback is due.
  \<^item> \<open>SecureConnect t authorized\<close>: the TLS handshake of transport \<open>t\<close> has
    completed, with this value of \<^verbatim>\<open>stream.authorized\<close>.

  The end-of-stream library calls a callback at most once, and not after its listeners
  were removed; \<^verbatim>\<open>tls.connect\<close> calls its callback once. A signal that finds no
  callback registered calls nothing.
\<close>

datatype signal =
    Data channel jsobject
  | Ended channel
  | Failed channel
  | Closed nat
  | SecureConnect nat bool

text \<open>
  The callback of lines 129--132, 133--136 and 137--140, called at most once for its
  source.
\<close>

definition source_closed :: "channel \<Rightarrow> state \<Rightarrow> state result" where
  "source_closed c s =
     (if c \<in> set (watched s) then
        (let s = s\<lparr>watched := removeAll c (watched s)\<rparr>;
             s = s\<lparr>streamsOpened := streamsOpened s - 1\<rparr>
         in streamClosed (streamsOpened s) s)
      else Inr s)"

fun step :: "RegExp \<Rightarrow> options \<Rightarrow> state \<Rightarrow> signal \<Rightarrow> state result" where
  "step new_RegExp opts s (Data c obj) =
     (if has_source s c \<and> \<not> filter_ended s then
        (case filter_js new_RegExp opts obj of
           Inl e \<Rightarrow> Inl (e, trace s)
         | Inr chunks \<Rightarrow>
             Inr (s\<lparr>trace := trace s @ concat (map (\<lambda>chunk. map (\<lambda>t. Write t chunk) (piped s)) chunks)\<rparr>))
      else Inr s)"
| "step new_RegExp opts s (Ended c) =
     (if has_source s c then source_closed c (s\<lparr>filter_ended := True\<rparr>) else Inr s)"
| "step new_RegExp opts s (Failed c) = source_closed c s"
| "step new_RegExp opts s (Closed t) =
     (if t \<in> set (restart_on s)
      then Inr (pipe opts (s\<lparr>restart_on := removeAll t (restart_on s)\<rparr>))
      else Inr s)"
| "step new_RegExp opts s (SecureConnect t authorized) =
     (if t \<in> set (onSecure s) then
        (if \<not> authorized
         then Inl (Error ''secure connection not authorized'', trace s)
         else Inr (s\<lparr>onSecure := removeAll t (onSecure s)\<rparr>))
      else Inr s)"

text \<open>A sequence of signals; the first throw ends it.\<close>

fun run :: "RegExp \<Rightarrow> options \<Rightarrow> state \<Rightarrow> signal list \<Rightarrow> state result" where
  "run new_RegExp opts s [] = Inr s"
| "run new_RegExp opts s (sig # sigs) =
     (case step new_RegExp opts s sig of
        Inl e \<Rightarrow> Inl e
      | Inr s' \<Rightarrow> run new_RegExp opts s' sigs)"


text \<open>Readings of a trace.\<close>

fun is_teardown :: "effect \<Rightarrow> bool" where
  "is_teardown (RemoveEos t) = True"
| "is_teardown (Destroy t) = True"
| "is_teardown e = False"

definition teardown :: "effect list \<Rightarrow> effect list" where
  "teardown tr = filter is_teardown tr"

fun is_connect :: "effect \<Rightarrow> bool" where
  "is_connect (TlsConnect t p h) = True"
| "is_connect (NetCreateConnection t p h) = True"
| "is_connect e = False"

definition connects :: "effect list \<Rightarrow> nat" where
  "connects tr = length (filter is_connect tr)"

fun is_write :: "effect \<Rightarrow> bool" where
  "is_write (Write t chunk) = True"
| "is_write e = False"

definition written :: "effect list \<Rightarrow> effect list" where
  "written tr = filter is_write tr"

text \<open>
  A source has completed in a sequence of signals when it has ended there, gracefully
  or by an error.
\<close>

definition completed :: "signal list \<Rightarrow> channel \<Rightarrow> bool" where
  "completed sigs c \<longleftrightarrow> Ended c \<in> set sigs \<or> Failed c \<in> set sigs"

definition enabled :: "options \<Rightarrow> channel list" where
  "enabled opts = filter (channel_on opts) [Loghose, Stats, DockerEvents]"

text \<open>
  The wiring that \<^verbatim>\<open>start\<close> leaves behind and every later callback keeps: the filter
  is piped to the current transport and to nothing else, \<open>noRestart\<close> belongs to it, its
  end-of-stream callback is pending exactly while a source is still watched, and the
  count is the number of watched sources.
\<close>

definition wired :: "state \<Rightarrow> bool" where
  "wired s \<longleftrightarrow>
     (\<exists>t. out s = Some t \<and> noRestart s = Some t \<and> piped s = [t] \<and> created s = Suc t
        \<and> restart_on s = (if watched s = [] then [] else [t]))
     \<and> distinct (watched s)
     \<and> streamsOpened s = int (length (watched s))
     \<and> (\<forall>c \<in> set (watched s). has_source s c)"

section \<open>Concrete inputs\<close>

definition example_event :: jsobject where
  "example_event = [(''line'', JStr ''hello''), (''name'', JStr ''web1''), (''image'', JStr ''nginx'')]"

definition example_policy :: options where
  "example_policy =
     \<lparr>add = Some [(''host'', JStr ''myhost'')], logstoken = Some ''ABC'', statstoken = None,
      eventstoken = None, matchByName = [], matchByImage = [], skipByName = [],
      skipByImage = [], logs = Some True, stats = Some True, dockerEvents = Some True,
      secure = False, server = ''data.logentries.com'', port = 80\<rparr>"

definition web_policy :: options where
  "web_policy = example_policy\<lparr>matchByName := ''^web'', skipByImage := ''redis''\<rparr>"

definition blank_line_event :: jsobject where
  "blank_line_event = [(''line'', JStr []), (''name'', JStr ''web1''), (''image'', JStr ''nginx'')]"

definition LT1_policy :: options where
  "LT1_policy = example_policy\<lparr>add := None, logstoken := Some ''LT1''\<rparr>"



definition all_channels_policy :: options where
  "all_channels_policy = example_policy\<lparr>statstoken := Some ''DEF'', eventstoken := Some ''GHI''\<rparr>"

definition no_channel_policy :: options where
  "no_channel_policy = example_policy\<lparr>logs := Some False, eventstoken := Some []\<rparr>"

definition secure_policy :: options where
  "secure_policy = example_policy\<lparr>secure := True, port := 443\<rparr>"






section \<open>Enrichment precedence\<close>







lemma addAll_loop_plain:
  "\<not> present proto ''hasOwnProperty'' \<Longrightarrow>
   addAll_loop proto keys obj = Inr (fold (\<lambda>key obj. assign obj key (get proto key)) keys obj)"
  by (induction keys arbitrary: obj) simp_all

lemma addAll_loop_shadowed:
  "present proto ''hasOwnProperty'' \<Longrightarrow> keys \<noteq> [] \<Longrightarrow> addAll_loop proto keys obj = Inl TypeError"
  by (cases keys) simp_all

lemma set_js_order: "set (js_order obj) = set obj"
  by (auto simp: js_order_def)

lemma keys_js_order: "set (map fst (js_order proto)) = {key. present proto key}"
  by (auto simp: set_js_order present_def map_of_eq_None_iff image_iff)

lemma addAll_plain:
  "\<not> present proto ''hasOwnProperty'' \<Longrightarrow>
   addAll (Some proto) obj
     = Inr (fold (\<lambda>key obj. assign obj key (get proto key)) (map fst (js_order proto)) obj)"
  by (simp add: addAll_loop_plain)

lemma addAll_shadowed:
  assumes "present proto ''hasOwnProperty''"
  shows "addAll (Some proto) obj = Inl TypeError"
proof -
  have "''hasOwnProperty'' \<in> set (map fst (js_order proto))"
    using assms by (simp only: keys_js_order) simp
  then have "map fst (js_order proto) \<noteq> []" by auto
  then show ?thesis
    using assms by (simp add: addAll_loop_shadowed)
qed

lemma addAll_Inr_iff:
  "(\<exists>obj'. addAll (Some proto) obj = Inr obj') \<longleftrightarrow> \<not> present proto ''hasOwnProperty''"
  using addAll_plain [of proto obj] addAll_shadowed [of proto obj] by auto





section \<open>The pattern checks\<close>

lemma match_check_Some:
  "pattern \<noteq> [] \<longrightarrow> new_RegExp pattern = Some regex \<Longrightarrow>
   match_check new_RegExp pattern field passes
     = Inr (passes \<and> (pattern = [] \<or> regex (to_String field)))"
  by (auto simp: match_check_def)

lemma skip_check_Some:
  "pattern \<noteq> [] \<longrightarrow> new_RegExp pattern = Some regex \<Longrightarrow>
   skip_check new_RegExp pattern field passes
     = Inr (passes \<and> (pattern = [] \<or> \<not> regex (to_String field)))"
  by (auto simp: skip_check_def)

lemma passes_regex_verdict:
  assumes "matchByName opts \<noteq> [] \<longrightarrow> new_RegExp (matchByName opts) = Some mN"
    and "matchByImage opts \<noteq> [] \<longrightarrow> new_RegExp (matchByImage opts) = Some mI"
    and "skipByName opts \<noteq> [] \<longrightarrow> new_RegExp (skipByName opts) = Some sN"
    and "skipByImage opts \<noteq> [] \<longrightarrow> new_RegExp (skipByImage opts) = Some sI"
  shows "passes_regex new_RegExp opts obj =
     Inr ((matchByName opts = [] \<or> mN (to_String (get obj ''name'')))
        \<and> (matchByImage opts = [] \<or> mI (to_String (get obj ''image'')))
        \<and> (skipByName opts = [] \<or> \<not> sN (to_String (get obj ''name'')))
        \<and> (skipByImage opts = [] \<or> \<not> sI (to_String (get obj ''image''))))"
  unfolding passes_regex_def
  using assms
  by (simp add: match_check_Some [of "matchByName opts" new_RegExp mN]
      match_check_Some [of "matchByImage opts" new_RegExp mI]
      skip_check_Some [of "skipByName opts" new_RegExp sN]
      skip_check_Some [of "skipByImage opts" new_RegExp sI])

lemma filter_js_passes:
  "addAll (add opts) obj0 = Inr obj \<Longrightarrow> passes_regex new_RegExp opts obj = Inr passes \<Longrightarrow>
   filter_js new_RegExp opts obj0 =
     Inr (if truthy_token (select_token opts obj) \<and> passes
          then [case select_token opts obj of None \<Rightarrow> [] | Some t \<Rightarrow> t,
                '' '', JSON_stringify obj, [CHR 0x0A]]
          else [])"
  by (simp add: filter_js_def Let_def)

lemma addAll_host:
  "addAll (Some [(''host'', v)]) obj = Inr (AList.update ''host'' v obj)"
  by (simp add: present_def js_order_def array_index_def is_digit_def get_def assign_def)

text \<open>
  C1. Take an enriched event and four patterns, each empty or accepted by the engine.
  The pattern checks pass exactly when each non-empty inclusive pattern matches its
  field (the name for \<open>matchByName\<close>, the image for \<open>matchByImage\<close>) and each
  non-empty exclusive pattern does not match its field, the fields read as text. The
  four checks are a conjunction: when one fails the filter pushes nothing for the raw
  event that was enriched to this one, whatever the others say, and when all hold an
  event with a non-empty token is pushed.
\<close>

theorem filter_truth_table:
  assumes "matchByName opts \<noteq> [] \<longrightarrow> new_RegExp (matchByName opts) = Some mN"
    and "matchByImage opts \<noteq> [] \<longrightarrow> new_RegExp (matchByImage opts) = Some mI"
    and "skipByName opts \<noteq> [] \<longrightarrow> new_RegExp (skipByName opts) = Some sN"
    and "skipByImage opts \<noteq> [] \<longrightarrow> new_RegExp (skipByImage opts) = Some sI"
  shows "(let verdict =
                ((matchByName opts = [] \<or> mN (to_String (get obj ''name'')))
               \<and> (matchByImage opts = [] \<or> mI (to_String (get obj ''image'')))
               \<and> (skipByName opts = [] \<or> \<not> sN (to_String (get obj ''name'')))
               \<and> (skipByImage opts = [] \<or> \<not> sI (to_String (get obj ''image''))))
          in passes_regex new_RegExp opts obj = Inr verdict
           \<and> (addAll (add opts) obj0 = Inr obj \<longrightarrow>
                (\<not> verdict \<longrightarrow> filter_js new_RegExp opts obj0 = Inr [])
              \<and> (verdict \<and> truthy_token (select_token opts obj) \<longrightarrow>
                   filter_js new_RegExp opts obj0 \<noteq> Inr [])))"
proof -
  note v = passes_regex_verdict [OF assms, of obj]
  have "addAll (add opts) obj0 = Inr obj \<Longrightarrow> ?thesis"
    unfolding Let_def using v filter_js_passes [OF _ v, of obj0] by simp
  moreover have "addAll (add opts) obj0 \<noteq> Inr obj \<Longrightarrow> ?thesis"
    unfolding Let_def using v by simp
  ultimately show ?thesis by blast
qed

theorem filter_truth_table_witness:
  "literal_RegExp (matchByName web_policy) = Some (starts_with ''web'')
   \<and> literal_RegExp (skipByImage web_policy) = Some (occurs_in ''redis'')
   \<and> passes_regex literal_RegExp web_policy example_event = Inr True
   \<and> passes_regex literal_RegExp web_policy
        [(''line'', JStr ''x''), (''name'', JStr ''db-1''), (''image'', JStr ''nginx'')]
       = Inr False
   \<and> addAll (add web_policy)
        [(''line'', JStr ''x''), (''name'', JStr ''web-1''), (''image'', JStr ''redis:7'')]
       = Inr [(''line'', JStr ''x''), (''name'', JStr ''web-1''), (''image'', JStr ''redis:7''),
              (''host'', JStr ''myhost'')]
   \<and> filter_js literal_RegExp web_policy
        [(''line'', JStr ''x''), (''name'', JStr ''web-1''), (''image'', JStr ''redis:7'')] = Inr []"
proof -
  have a: "literal_RegExp (matchByName web_policy) = Some (starts_with ''web'')"
    by (simp add: web_policy_def example_policy_def literal_RegExp_def plain_char_def)
  have b: "literal_RegExp (skipByImage web_policy) = Some (occurs_in ''redis'')"
    by (simp add: web_policy_def example_policy_def literal_RegExp_def plain_char_def)
  have c: "matchByImage web_policy = []" "skipByName web_policy = []"
    "matchByName web_policy = ''^web''" "skipByImage web_policy = ''redis''"
    by (simp_all add: web_policy_def example_policy_def)
  have d: "add web_policy = Some [(''host'', JStr ''myhost'')]"
    by (simp add: web_policy_def example_policy_def)
  have e: "addAll (add web_policy)
        [(''line'', JStr ''x''), (''name'', JStr ''web-1''), (''image'', JStr ''redis:7'')]
       = Inr [(''line'', JStr ''x''), (''name'', JStr ''web-1''), (''image'', JStr ''redis:7''),
              (''host'', JStr ''myhost'')]"
    unfolding d addAll_host by simp
  note t = filter_truth_table [of web_policy literal_RegExp "starts_with ''web''"
      "\<lambda>s. True" "\<lambda>s. True" "occurs_in ''redis''", unfolded Let_def]
  show ?thesis
    using a b e
      t [of example_event example_event]
      t [of "[(''line'', JStr ''x''), (''name'', JStr ''db-1''), (''image'', JStr ''nginx'')]"
          example_event]
      t [of "[(''line'', JStr ''x''), (''name'', JStr ''web-1''), (''image'', JStr ''redis:7''),
              (''host'', JStr ''myhost'')]"
          "[(''line'', JStr ''x''), (''name'', JStr ''web-1''), (''image'', JStr ''redis:7'')]"]
    by (simp add: c example_event_def get_def del: addAll.simps)
qed

section \<open>Token routing\<close>


lemma select_token_kind:
  "select_token opts obj =
     (case kind_by_truthiness obj of None \<Rightarrow> Some [] | Some k \<Rightarrow> token_of opts k)"
  by (simp add: select_token_def kind_by_truthiness_def)

lemma filter_js_cases:
  assumes "filter_js new_RegExp opts obj0 = Inr chunks"
  obtains obj passes where "addAll (add opts) obj0 = Inr obj"
    and "passes_regex new_RegExp opts obj = Inr passes"
    and "chunks =
      (if truthy_token (select_token opts obj) \<and> passes
       then [case select_token opts obj of None \<Rightarrow> [] | Some t \<Rightarrow> t,
             '' '', JSON_stringify obj, [CHR 0x0A]]
       else [])"
  using assms by (auto simp: filter_js_def Let_def split: sum.splits)

lemma passes_regex_no_patterns:
  "matchByName opts = [] \<Longrightarrow> matchByImage opts = [] \<Longrightarrow> skipByName opts = [] \<Longrightarrow>
   skipByImage opts = [] \<Longrightarrow> passes_regex new_RegExp opts obj = Inr True"
  by (simp add: passes_regex_def match_check_def skip_check_def)

text \<open>
  The kind is not decided by the presence of a field. A log event whose line is the
  empty text has a \<open>line\<close> field, and the logs token is set, yet the filter pushes
  nothing for it: the empty text is falsy, so no token is selected.
\<close>

theorem token_routing_by_presence_counterexample:
  "kind_by_presence blank_line_event = Some LogLine
   \<and> token_of LT1_policy LogLine = Some ''LT1''
   \<and> filter_js literal_RegExp LT1_policy blank_line_event = Inr []"
  by (simp add: kind_by_presence_def present_def blank_line_event_def LT1_policy_def
      example_policy_def filter_js_def select_token_def get_def passes_regex_def
      match_check_def skip_check_def)

text \<open>
  C2, amended. The filter takes the kind of an event from the first of the fields
  \<open>line\<close>, \<open>type\<close>, \<open>stats\<close> whose value is truthy, and selects the token
  configured for that kind (\<open>logstoken\<close>, \<open>eventstoken\<close>, \<open>statstoken\<close>).
  Whatever it pushes starts with that token, and it pushes nothing when no field is
  truthy or the selected token is empty or unset. With \<open>logstoken\<close> \<^verbatim>\<open>LT1\<close>, the
  other two tokens unset and no patterns, an event with a truthy line goes out under
  \<^verbatim>\<open>LT1\<close> and a stats event is dropped.
\<close>

theorem token_routing_by_truthiness:
  assumes "filter_js new_RegExp opts obj0 = Inr chunks"
  shows "\<exists>obj. addAll (add opts) obj0 = Inr obj
    \<and> select_token opts obj =
        (case kind_by_truthiness obj of None \<Rightarrow> Some [] | Some k \<Rightarrow> token_of opts k)
    \<and> (case kind_by_truthiness obj of
          None \<Rightarrow> chunks = []
        | Some k \<Rightarrow>
            if truthy_token (token_of opts k)
            then chunks = [] \<or> Some (hd chunks) = token_of opts k
            else chunks = [])
    \<and> (logstoken opts = Some ''LT1'' \<and> statstoken opts = None \<and> eventstoken opts = None
         \<and> matchByName opts = [] \<and> matchByImage opts = [] \<and> skipByName opts = []
         \<and> skipByImage opts = [] \<longrightarrow>
          (kind_by_truthiness obj = Some LogLine \<longrightarrow>
             chunks = [''LT1'', '' '', JSON_stringify obj, [CHR 0x0A]])
        \<and> (kind_by_truthiness obj = Some Sample \<longrightarrow> chunks = []))"
proof -
  obtain obj passes where e: "addAll (add opts) obj0 = Inr obj"
    and p: "passes_regex new_RegExp opts obj = Inr passes"
    and c: "chunks =
      (if truthy_token (select_token opts obj) \<and> passes
       then [case select_token opts obj of None \<Rightarrow> [] | Some t \<Rightarrow> t,
             '' '', JSON_stringify obj, [CHR 0x0A]]
       else [])"
    using assms by (rule filter_js_cases)
  have n: "matchByName opts = [] \<and> matchByImage opts = [] \<and> skipByName opts = []
         \<and> skipByImage opts = [] \<Longrightarrow> passes"
    using p passes_regex_no_patterns [of opts new_RegExp obj] by simp
  have "select_token opts obj =
        (case kind_by_truthiness obj of None \<Rightarrow> Some [] | Some k \<Rightarrow> token_of opts k)
    \<and> (case kind_by_truthiness obj of
          None \<Rightarrow> chunks = []
        | Some k \<Rightarrow>
            if truthy_token (token_of opts k)
            then chunks = [] \<or> Some (hd chunks) = token_of opts k
            else chunks = [])
    \<and> (logstoken opts = Some ''LT1'' \<and> statstoken opts = None \<and> eventstoken opts = None
         \<and> matchByName opts = [] \<and> matchByImage opts = [] \<and> skipByName opts = []
         \<and> skipByImage opts = [] \<longrightarrow>
          (kind_by_truthiness obj = Some LogLine \<longrightarrow>
             chunks = [''LT1'', '' '', JSON_stringify obj, [CHR 0x0A]])
        \<and> (kind_by_truthiness obj = Some Sample \<longrightarrow> chunks = []))"
    unfolding select_token_kind
    using n by (auto simp: c select_token_kind split: option.splits)
  with e show ?thesis by blast
qed

theorem token_routing_by_truthiness_witness:
  "filter_js literal_RegExp LT1_policy example_event
     = Inr [''LT1'', '' '', JSON_stringify example_event, [CHR 0x0A]]
   \<and> addAll (add LT1_policy) example_event = Inr example_event
   \<and> kind_by_truthiness example_event = Some LogLine
   \<and> token_of LT1_policy LogLine = Some ''LT1''"
proof -
  have a: "filter_js literal_RegExp LT1_policy example_event
     = Inr [''LT1'', '' '', JSON_stringify example_event, [CHR 0x0A]]"
    by (simp add: LT1_policy_def example_policy_def filter_js_def select_token_def get_def
        passes_regex_def match_check_def skip_check_def example_event_def)
  show ?thesis
    using a token_routing_by_truthiness [OF a]
    by (simp add: LT1_policy_def example_policy_def kind_by_truthiness_def get_def
        example_event_def)
qed

section \<open>Events of no kind\<close>




section \<open>Missing identity fields\<close>




section \<open>The wire format\<close>

text \<open>The serialised event holds no line terminator.\<close>

lemma nl_digit: "n < 10 \<Longrightarrow> ''0123456789'' ! n \<noteq> CHR 0x0A"
proof -
  assume "n < 10"
  then have "''0123456789'' ! n \<in> set ''0123456789''" by (intro nth_mem) simp
  then show ?thesis by auto
qed

lemma nl_digits: "CHR 0x0A \<notin> set (digits n)"
proof (induction n rule: digits.induct)
  case (1 n)
  show ?case
  proof (cases "n < 10")
    case True
    then have "nat n < 10" by simp
    then have "''0123456789'' ! nat n \<noteq> CHR 0x0A" by (rule nl_digit)
    then show ?thesis using True by (subst digits.simps) auto
  next
    case False
    have "nat (n mod 10) < 10" by simp
    then have "''0123456789'' ! nat (n mod 10) \<noteq> CHR 0x0A" by (rule nl_digit)
    then show ?thesis using False 1 by (subst digits.simps) auto
  qed
qed

lemma nl_positive_text:
  assumes "CHR 0x0A \<notin> set ds"
  shows "CHR 0x0A \<notin> set (positive_text ds n)"
proof -
  have t: "\<And>m. CHR 0x0A \<notin> set (take m ds)" using assms by (auto dest: in_set_takeD)
  have d: "\<And>m. CHR 0x0A \<notin> set (drop m ds)" using assms by (auto dest: in_set_dropD)
  show ?thesis
    unfolding positive_text_def Let_def
    using assms t d nl_digits [of "\<bar>n - 1\<bar>"] by auto
qed

lemma nl_Number_toString: "CHR 0x0A \<notin> set (Number_toString x)"
proof (cases x)
  case (Finite s n)
  show ?thesis
    using nl_positive_text [OF nl_digits, of "strip_zeros \<bar>s\<bar>" n] by (simp add: Finite)
qed auto

lemma nl_stringify_number: "CHR 0x0A \<notin> set (stringify_number x)"
  using nl_Number_toString [of x] by (cases x) auto

lemma nl_hex: "n < 16 \<Longrightarrow> hex_digit n \<noteq> CHR 0x0A"
proof -
  assume "n < 16"
  then have "''0123456789abcdef'' ! n \<in> set ''0123456789abcdef''" by (intro nth_mem) simp
  then show ?thesis unfolding hex_digit_def by auto
qed

lemma nl_quote_char: "CHR 0x0A \<notin> set (quote_char c)"
proof -
  have a: "hex_digit ((of_char c :: nat) mod 16) \<noteq> CHR 0x0A" by (rule nl_hex) simp
  have b: "(of_char c :: nat) < 32 \<Longrightarrow> hex_digit ((of_char c :: nat) div 16) \<noteq> CHR 0x0A"
    by (rule nl_hex) simp
  show ?thesis using a b by (auto simp: quote_char_def)
qed

lemma nl_quote: "CHR 0x0A \<notin> set (quote s)"
  by (simp add: quote_def nl_quote_char)

lemma nl_commas: "(\<And>t. t \<in> set ts \<Longrightarrow> CHR 0x0A \<notin> set t) \<Longrightarrow> CHR 0x0A \<notin> set (commas ts)"
  by (induction ts rule: commas.induct) auto

lemma nl_stringify:
  "(\<forall>t. stringify v = Some t \<longrightarrow> CHR 0x0A \<notin> set t)"
  "(\<forall>t \<in> set (members ps). CHR 0x0A \<notin> set t)"
  "(\<forall>t \<in> set (elements vs). CHR 0x0A \<notin> set t)"
proof (induction v and ps and vs rule: stringify_members_elements.induct)
qed (auto simp: nl_stringify_number nl_quote nl_commas split: option.splits)

lemma nl_JSON_stringify: "CHR 0x0A \<notin> set (JSON_stringify obj)"
  using nl_stringify(2) [of "js_order (enumerated_props obj)"]
  by (simp add: JSON_stringify_def nl_commas)

lemma example_enriched:
  "addAll (add example_policy) example_event = Inr (example_event @ [(''host'', JStr ''myhost'')])"
  by (simp add: example_policy_def addAll_host example_event_def del: addAll.simps)

lemma example_serialised:
  \<open>JSON_stringify (example_event @ [(''host'', JStr ''myhost'')])
     = ''{"line":"hello","name":"web1","image":"nginx","host":"myhost"}''\<close>
  by code_simp

text \<open>
  C6. Whenever the filter pushes anything for an event, it pushes the token, one space,
  the serialised enriched event and a line terminator, in this order and nothing else;
  their concatenation is one line, since the token is not empty and the serialised
  event holds no line terminator. The event \<^verbatim>\<open>{line:"hello", name:"web1",
  image:"nginx"}\<close> under the enrichment \<^verbatim>\<open>{host:"myhost"}\<close>, the logs token
  \<^verbatim>\<open>ABC\<close> and no patterns gives the record of the specification.
\<close>

theorem wire_format:
  \<open>(filter_js new_RegExp opts obj0 = Inr chunks \<and> chunks \<noteq> [] \<longrightarrow>
      (\<exists>obj token. addAll (add opts) obj0 = Inr obj
         \<and> select_token opts obj = Some token \<and> token \<noteq> []
         \<and> chunks = [token, '' '', JSON_stringify obj, [CHR 0x0A]]
         \<and> concat chunks = token @ '' '' @ JSON_stringify obj @ [CHR 0x0A]
         \<and> CHR 0x0A \<notin> set (JSON_stringify obj)))
   \<and> filter_js new_RegExp example_policy example_event
       = Inr [''ABC'', '' '', ''{"line":"hello","name":"web1","image":"nginx","host":"myhost"}'',
              [CHR 0x0A]]\<close>
proof (intro conjI impI)
  assume a: "filter_js new_RegExp opts obj0 = Inr chunks \<and> chunks \<noteq> []"
  then obtain obj passes where e: "addAll (add opts) obj0 = Inr obj" and
    c: "chunks =
      (if truthy_token (select_token opts obj) \<and> passes
       then [case select_token opts obj of None \<Rightarrow> [] | Some t \<Rightarrow> t,
             '' '', JSON_stringify obj, [CHR 0x0A]]
       else [])"
    by (auto elim: filter_js_cases)
  with a have t: "truthy_token (select_token opts obj)" and "passes"
    by (auto split: if_splits)
  then obtain token where k: "select_token opts obj = Some token" "token \<noteq> []"
    by (cases "select_token opts obj") auto
  have "select_token opts obj = Some token \<and> token \<noteq> []
         \<and> chunks = [token, '' '', JSON_stringify obj, [CHR 0x0A]]
         \<and> concat chunks = token @ '' '' @ JSON_stringify obj @ [CHR 0x0A]
         \<and> CHR 0x0A \<notin> set (JSON_stringify obj)"
    using k c \<open>passes\<close> nl_JSON_stringify [of obj] by simp
  with e show "\<exists>obj token. addAll (add opts) obj0 = Inr obj
         \<and> select_token opts obj = Some token \<and> token \<noteq> []
         \<and> chunks = [token, '' '', JSON_stringify obj, [CHR 0x0A]]
         \<and> concat chunks = token @ '' '' @ JSON_stringify obj @ [CHR 0x0A]
         \<and> CHR 0x0A \<notin> set (JSON_stringify obj)"
    by blast
next
  have p: "passes_regex new_RegExp example_policy (example_event @ [(''host'', JStr ''myhost'')])
      = Inr True"
    by (rule passes_regex_no_patterns) (simp_all add: example_policy_def)
  have s: "select_token example_policy (example_event @ [(''host'', JStr ''myhost'')]) = Some ''ABC''"
    by (simp add: select_token_def example_policy_def example_event_def get_def)
  show \<open>filter_js new_RegExp example_policy example_event
       = Inr [''ABC'', '' '', ''{"line":"hello","name":"web1","image":"nginx","host":"myhost"}'',
              [CHR 0x0A]]\<close>
    using filter_js_passes [OF example_enriched p] by (simp add: s example_serialised)
qed

theorem wire_format_witness:
  \<open>filter_js literal_RegExp example_policy example_event
       = Inr [''ABC'', '' '', ''{"line":"hello","name":"web1","image":"nginx","host":"myhost"}'',
              [CHR 0x0A]]
   \<and> concat [''ABC'', '' '', ''{"line":"hello","name":"web1","image":"nginx","host":"myhost"}'',
              [CHR 0x0A]]
       = ''ABC {"line":"hello","name":"web1","image":"nginx","host":"myhost"}'' @ [CHR 0x0A]
   \<and> (\<exists>obj. addAll (add example_policy) example_event = Inr obj
        \<and> select_token example_policy obj = Some ''ABC'')\<close>
proof -
  note w = wire_format [of literal_RegExp example_policy example_event
      \<open>[''ABC'', '' '', ''{"line":"hello","name":"web1","image":"nginx","host":"myhost"}'', [CHR 0x0A]]\<close>]
  from w have a: \<open>filter_js literal_RegExp example_policy example_event
       = Inr [''ABC'', '' '', ''{"line":"hello","name":"web1","image":"nginx","host":"myhost"}'',
              [CHR 0x0A]]\<close>
    by blast
  with w show ?thesis by auto
qed

section \<open>The wiring is kept\<close>

lemma has_source_set_handle: "has_source (set_handle c s) c' \<longleftrightarrow> c' = c \<or> has_source s c'"
  by (cases c; cases c') simp_all

lemma set_handle_fields:
  "streamsOpened (set_handle c s) = streamsOpened s"
  "out (set_handle c s) = out s"
  "noRestart (set_handle c s) = noRestart s"
  "piped (set_handle c s) = piped s"
  "restart_on (set_handle c s) = restart_on s"
  "watched (set_handle c s) = watched s"
  "onSecure (set_handle c s) = onSecure s"
  "created (set_handle c s) = created s"
  "trace (set_handle c s) = trace s"
  by (cases c; simp)+

lemma open_source_fields:
  "streamsOpened (open_source opts c s) = streamsOpened s + (if channel_on opts c then 1 else 0)"
  "has_source (open_source opts c s) c' \<longleftrightarrow> (c' = c \<and> channel_on opts c) \<or> has_source s c'"
  "out (open_source opts c s) = out s"
  "noRestart (open_source opts c s) = noRestart s"
  "piped (open_source opts c s) = piped s"
  "restart_on (open_source opts c s) = restart_on s"
  "watched (open_source opts c s) = watched s"
  "onSecure (open_source opts c s) = onSecure s"
  "created (open_source opts c s) = created s"
  "trace (open_source opts c s) = trace s @ (if channel_on opts c then [Factory c] else [])"
  by (simp_all add: open_source_def set_handle_fields has_source_set_handle
      has_source_set_handle [of c s c', simplified]; cases c'; cases c; simp)+


lemma pipe_fields:
  "out (pipe opts s) = Some (created s)"
  "noRestart (pipe opts s) = Some (created s)"
  "piped (pipe opts s)
     = (case out s of None \<Rightarrow> piped s | Some old \<Rightarrow> removeAll old (piped s)) @ [created s]"
  "restart_on (pipe opts s) = restart_on s @ [created s]"
  "created (pipe opts s) = Suc (created s)"
  "onSecure (pipe opts s) = (if secure opts then onSecure s @ [created s] else onSecure s)"
  "watched (pipe opts s) = watched s"
  "streamsOpened (pipe opts s) = streamsOpened s"
  "has_source (pipe opts s) c = has_source s c"
  "trace (pipe opts s)
     = trace s @ (case out s of None \<Rightarrow> [] | Some old \<Rightarrow> [Unpipe old])
       @ [if secure opts then TlsConnect (created s) (port opts) (server opts)
          else NetCreateConnection (created s) (port opts) (server opts),
          Pipe (created s), Eos (created s)]"
  by (cases c; simp add: pipe_def connect_def Let_def split: option.splits)+

lemma watch_source_fields:
  "out (watch_source c s) = out s"
  "noRestart (watch_source c s) = noRestart s"
  "piped (watch_source c s) = piped s"
  "restart_on (watch_source c s) = restart_on s"
  "created (watch_source c s) = created s"
  "onSecure (watch_source c s) = onSecure s"
  "watched (watch_source c s) = watched s @ (if has_source s c then [c] else [])"
  "streamsOpened (watch_source c s) = streamsOpened s"
  "has_source (watch_source c s) c' = has_source s c'"
  "trace (watch_source c s) = trace s @ (if has_source s c then [EosSource c] else [])"
  by (cases c'; simp add: watch_source_def)+

lemma initial_fields:
  "out initial = None" "noRestart initial = None" "piped initial = []"
  "restart_on initial = []" "created initial = 0" "onSecure initial = []"
  "watched initial = []" "streamsOpened initial = 0" "\<not> has_source initial c"
  "trace initial = [ConsoleLog ''Started successfully, streaming logs ...'', AllContainers]"
  by (cases c; simp add: initial_def)+

lemmas start_fields = open_source_fields pipe_fields watch_source_fields initial_fields

lemma start_cases:
  "start opts =
     (if enabled opts = []
      then Inl (Error ''You must provide a key for at least one of logs, stats, or dockerEvents'',
                [ConsoleLog ''Started successfully, streaming logs ...'', AllContainers])
      else Inr (watch_source DockerEvents (watch_source Stats (watch_source Loghose
             (pipe opts (open_source opts DockerEvents (open_source opts Stats
                (open_source opts Loghose initial))))))))"
  unfolding start_def Let_def
  by (simp add: has_source.simps [symmetric] start_fields enabled_def
      del: has_source.simps channel_on.simps)

lemma start_wired:
  assumes "start opts = Inr s0"
  shows "wired s0 \<and> watched s0 = enabled opts \<and> enabled opts \<noteq> []
    \<and> teardown (trace s0) = [] \<and> connects (trace s0) = 1
    \<and> (if secure opts then TlsConnect 0 (port opts) (server opts)
          else NetCreateConnection 0 (port opts) (server opts)) \<in> set (trace s0)"
proof -
  have e: "enabled opts \<noteq> []"
    and s0: "s0 = watch_source DockerEvents (watch_source Stats (watch_source Loghose
             (pipe opts (open_source opts DockerEvents (open_source opts Stats
                (open_source opts Loghose initial))))))"
    using assms by (simp_all add: start_cases split: if_splits)
  have w: "watched s0 = enabled opts"
    by (simp add: s0 start_fields enabled_def del: has_source.simps channel_on.simps)
  have "wired s0"
    unfolding wired_def w using e
    by (auto simp: s0 start_fields enabled_def simp del: has_source.simps channel_on.simps)
  moreover have "teardown (trace s0) = []" "connects (trace s0) = 1"
    by (simp_all add: s0 start_fields teardown_def connects_def
        del: has_source.simps channel_on.simps)
  moreover have "(if secure opts then TlsConnect 0 (port opts) (server opts)
          else NetCreateConnection 0 (port opts) (server opts)) \<in> set (trace s0)"
    by (simp add: s0 start_fields del: has_source.simps channel_on.simps)
  ultimately show ?thesis using w e by simp
qed


lemma length_removeAll_distinct:
  assumes "distinct xs" and "x \<in> set xs"
  shows "int (length (removeAll x xs)) = int (length xs) - 1"
proof -
  have "length (removeAll x xs) = length xs - 1"
    using assms by (simp add: distinct_remove1_removeAll [symmetric] length_remove1)
  moreover have "0 < length xs"
    using assms(2) by (rule length_pos_if_in_set)
  ultimately show ?thesis by (cases xs) simp_all
qed

lemma has_source_update [simp]:
  "has_source (s\<lparr>streamsOpened := n\<rparr>) c = has_source s c"
  "has_source (s\<lparr>out := ot\<rparr>) c = has_source s c"
  "has_source (s\<lparr>noRestart := ot\<rparr>) c = has_source s c"
  "has_source (s\<lparr>piped := ts\<rparr>) c = has_source s c"
  "has_source (s\<lparr>restart_on := ts\<rparr>) c = has_source s c"
  "has_source (s\<lparr>watched := cs\<rparr>) c = has_source s c"
  "has_source (s\<lparr>onSecure := ts\<rparr>) c = has_source s c"
  "has_source (s\<lparr>created := k\<rparr>) c = has_source s c"
  "has_source (s\<lparr>filter_ended := b\<rparr>) c = has_source s c"
  "has_source (s\<lparr>trace := tr\<rparr>) c = has_source s c"
  by (cases c; simp)+

lemma wired_filter_ended [simp]: "wired (s\<lparr>filter_ended := b\<rparr>) = wired s"
  by (simp add: wired_def del: has_source.simps)

lemma source_closed_wired:
  assumes "wired s" and "c \<in> set (watched s)"
  shows "\<exists>t s'. out s = Some t \<and> source_closed c s = Inr s' \<and> wired s'
    \<and> watched s' = removeAll c (watched s) \<and> out s' = out s
    \<and> streamsOpened s' = streamsOpened s - 1 \<and> created s' = created s
    \<and> filter_ended s' = filter_ended s
    \<and> trace s' = trace s @ (if watched s' = [] then [RemoveEos t, Destroy t] else [])"
proof -
  from assms(1) obtain t where t: "out s = Some t" "noRestart s = Some t" "piped s = [t]"
    "created s = Suc t" "restart_on s = (if watched s = [] then [] else [t])"
    and d: "distinct (watched s)" and n: "streamsOpened s = int (length (watched s))"
    and h: "\<forall>c \<in> set (watched s). has_source s c"
    unfolding wired_def by blast
  have l: "int (length (removeAll c (watched s))) = streamsOpened s - 1"
    using d assms(2) n by (simp add: length_removeAll_distinct)
  have w: "watched s \<noteq> []" using assms(2) by auto
  show ?thesis
  proof (cases "removeAll c (watched s) = []")
    case True
    then have z: "streamsOpened s - 1 = 0" using l by simp
    show ?thesis
      using assms(2) True z t d w
      by (simp add: source_closed_def streamClosed_def wired_def del: has_source.simps)
  next
    case False
    then have z: "\<not> streamsOpened s - 1 \<le> 0" using l by (cases "removeAll c (watched s)") auto
    show ?thesis
      using assms(2) False z t d w l h
      by (simp add: source_closed_def streamClosed_def wired_def distinct_removeAll
          del: has_source.simps)
  qed
qed

lemma step_Failed:
  assumes "wired s" and "c \<in> set (watched s)"
  shows "\<exists>t s'. out s = Some t \<and> step new_RegExp opts s (Failed c) = Inr s' \<and> wired s'
    \<and> watched s' = removeAll c (watched s) \<and> out s' = out s
    \<and> streamsOpened s' = streamsOpened s - 1 \<and> created s' = created s
    \<and> filter_ended s' = filter_ended s
    \<and> trace s' = trace s @ (if watched s' = [] then [RemoveEos t, Destroy t] else [])"
  using source_closed_wired [OF assms] by simp

lemma step_Ended:
  assumes "wired s" and "c \<in> set (watched s)"
  shows "\<exists>t s'. out s = Some t \<and> step new_RegExp opts s (Ended c) = Inr s' \<and> wired s'
    \<and> watched s' = removeAll c (watched s) \<and> out s' = out s
    \<and> streamsOpened s' = streamsOpened s - 1 \<and> created s' = created s
    \<and> filter_ended s'
    \<and> trace s' = trace s @ (if watched s' = [] then [RemoveEos t, Destroy t] else [])"
proof -
  have h: "has_source s c" using assms by (simp add: wired_def del: has_source.simps)
  have w: "wired (s\<lparr>filter_ended := True\<rparr>)" using assms(1) by simp
  have c: "c \<in> set (watched (s\<lparr>filter_ended := True\<rparr>))" using assms(2) by simp
  show ?thesis
    using source_closed_wired [OF w c] h by (simp del: has_source.simps)
qed

lemma step_Failed_idle:
  "c \<notin> set (watched s) \<Longrightarrow> step new_RegExp opts s (Failed c) = Inr s"
  by (simp add: source_closed_def)

lemma step_Ended_idle:
  "c \<notin> set (watched s) \<Longrightarrow>
   step new_RegExp opts s (Ended c) = Inr (if has_source s c then s\<lparr>filter_ended := True\<rparr> else s)"
  by (simp add: source_closed_def del: has_source.simps)

lemma step_Closed:
  assumes "wired s" and "watched s \<noteq> []" and "out s = Some t"
  shows "\<exists>s'. step new_RegExp opts s (Closed t) = Inr s' \<and> wired s'
    \<and> watched s' = watched s \<and> out s' = Some (created s) \<and> piped s' = [created s]
    \<and> restart_on s' = [created s] \<and> streamsOpened s' = streamsOpened s
    \<and> trace s' = trace s @ [Unpipe t,
          if secure opts then TlsConnect (created s) (port opts) (server opts)
          else NetCreateConnection (created s) (port opts) (server opts),
          Pipe (created s), Eos (created s)]"
  using assms
  by (simp add: wired_def pipe_fields del: has_source.simps)

lemma step_Closed_idle:
  assumes "wired s" and "watched s = [] \<or> out s \<noteq> Some t"
  shows "step new_RegExp opts s (Closed t) = Inr s"
  using assms by (auto simp: wired_def)

lemma step_Data:
  "step new_RegExp opts s (Data c obj) = Inr s' \<Longrightarrow>
   wired s' = wired s \<and> watched s' = watched s \<and> out s' = out s
   \<and> streamsOpened s' = streamsOpened s \<and> created s' = created s
   \<and> teardown (trace s') = teardown (trace s) \<and> connects (trace s') = connects (trace s)"
  by (auto simp: wired_def teardown_def connects_def filter_concat comp_def
      simp del: has_source.simps split: if_splits sum.splits)

lemma step_SecureConnect:
  "step new_RegExp opts s (SecureConnect t a) = Inr s' \<Longrightarrow>
   wired s' = wired s \<and> watched s' = watched s \<and> out s' = out s
   \<and> streamsOpened s' = streamsOpened s \<and> created s' = created s \<and> trace s' = trace s"
  by (auto simp: wired_def simp del: has_source.simps split: if_splits)


lemma wired_out: "wired s \<Longrightarrow> \<exists>t. out s = Some t"
  by (auto simp: wired_def)

lemma removeAll_Ended: "removeAll c cs = filter (\<lambda>x. Ended x \<noteq> Ended c \<and> Failed x \<noteq> Ended c) cs"
  by (induction cs) auto

lemma removeAll_Failed: "removeAll c cs = filter (\<lambda>x. Ended x \<noteq> Failed c \<and> Failed x \<noteq> Failed c) cs"
  by (induction cs) auto

lemma filter_Ended_absent:
  "c \<notin> set cs \<Longrightarrow> filter (\<lambda>x. Ended x \<noteq> Ended c \<and> Failed x \<noteq> Ended c) cs = cs"
  by (induction cs) auto

lemma filter_Failed_absent:
  "c \<notin> set cs \<Longrightarrow> filter (\<lambda>x. Ended x \<noteq> Failed c \<and> Failed x \<noteq> Failed c) cs = cs"
  by (induction cs) auto

lemma step_wired:
  assumes "wired s" and "step new_RegExp opts s sig = Inr s'"
  shows "wired s' \<and> watched s' = filter (\<lambda>c. Ended c \<noteq> sig \<and> Failed c \<noteq> sig) (watched s)
    \<and> (\<exists>t'. out s' = Some t' \<and> teardown (trace s') = teardown (trace s)
          @ (if watched s \<noteq> [] \<and> watched s' = [] then [RemoveEos t', Destroy t'] else []))
    \<and> (watched s = [] \<longrightarrow> out s' = out s \<and> connects (trace s') = connects (trace s))"
proof (cases sig)
  case (Data c obj)
  then show ?thesis
    using assms step_Data [of new_RegExp opts s c obj s'] wired_out [of s] by auto
next
  case (Ended c)
  show ?thesis
  proof (cases "c \<in> set (watched s)")
    case True
    from step_Ended [OF assms(1) True, of new_RegExp opts] assms(2) Ended
    obtain t where "out s = Some t" "wired s'" "watched s' = removeAll c (watched s)"
      "out s' = out s"
      "trace s' = trace s @ (if watched s' = [] then [RemoveEos t, Destroy t] else [])"
      by auto
    moreover have "removeAll c (watched s)
        = filter (\<lambda>x. Ended x \<noteq> sig \<and> Failed x \<noteq> sig) (watched s)"
      unfolding Ended by (rule removeAll_Ended)
    moreover have "watched s \<noteq> []" using True by auto
    ultimately show ?thesis by (simp add: teardown_def)
  next
    case False
    then have "s' = (if has_source s c then s\<lparr>filter_ended := True\<rparr> else s)"
      using assms(2) Ended step_Ended_idle [of c s new_RegExp opts] by simp
    then have "wired s'" "watched s' = watched s" "out s' = out s" "trace s' = trace s"
      using assms(1) by (simp_all del: has_source.simps)
    moreover have "filter (\<lambda>x. Ended x \<noteq> sig \<and> Failed x \<noteq> sig) (watched s) = watched s"
      unfolding Ended using False by (rule filter_Ended_absent)
    ultimately show ?thesis using wired_out [OF assms(1)] by auto
  qed
next
  case (Failed c)
  show ?thesis
  proof (cases "c \<in> set (watched s)")
    case True
    from step_Failed [OF assms(1) True, of new_RegExp opts] assms(2) Failed
    obtain t where "out s = Some t" "wired s'" "watched s' = removeAll c (watched s)"
      "out s' = out s"
      "trace s' = trace s @ (if watched s' = [] then [RemoveEos t, Destroy t] else [])"
      by auto
    moreover have "removeAll c (watched s)
        = filter (\<lambda>x. Ended x \<noteq> sig \<and> Failed x \<noteq> sig) (watched s)"
      unfolding Failed by (rule removeAll_Failed)
    moreover have "watched s \<noteq> []" using True by auto
    ultimately show ?thesis by (simp add: teardown_def)
  next
    case False
    then have "s' = s" using assms(2) Failed step_Failed_idle [of c s new_RegExp opts] by simp
    moreover have "filter (\<lambda>x. Ended x \<noteq> sig \<and> Failed x \<noteq> sig) (watched s) = watched s"
      unfolding Failed using False by (rule filter_Failed_absent)
    ultimately show ?thesis using assms(1) wired_out [of s] by auto
  qed
next
  case (Closed t)
  show ?thesis
  proof (cases "watched s \<noteq> [] \<and> out s = Some t")
    case True
    with step_Closed [OF assms(1), of t new_RegExp opts] assms(2) Closed
    show ?thesis by (auto simp: teardown_def)
  next
    case False
    then have "s' = s"
      using step_Closed_idle [OF assms(1), of t new_RegExp opts] assms(2) Closed by auto
    then show ?thesis using assms(1) wired_out [of s] Closed by auto
  qed
next
  case (SecureConnect t a)
  then show ?thesis
    using assms step_SecureConnect [of new_RegExp opts s t a s'] wired_out [of s] by auto
qed

lemma run_wired:
  assumes "wired s" and "run new_RegExp opts s sigs = Inr s'"
  shows "wired s' \<and> watched s' = filter (\<lambda>c. \<not> completed sigs c) (watched s)
    \<and> (\<exists>t'. out s' = Some t' \<and> teardown (trace s') = teardown (trace s)
          @ (if watched s \<noteq> [] \<and> watched s' = [] then [RemoveEos t', Destroy t'] else []))
    \<and> (watched s = [] \<longrightarrow> out s' = out s \<and> connects (trace s') = connects (trace s))"
  using assms
proof (induction sigs arbitrary: s)
  case Nil
  then show ?case using wired_out [of s] by (auto simp: completed_def)
next
  case (Cons sig sigs)
  from Cons.prems(2) obtain s1 where s1: "step new_RegExp opts s sig = Inr s1"
    and r: "run new_RegExp opts s1 sigs = Inr s'"
    by (auto split: sum.splits)
  note a = step_wired [OF Cons.prems(1) s1]
  then have w1: "wired s1" by blast
  note b = Cons.IH [OF w1 r]
  have f: "watched s' = filter (\<lambda>c. \<not> completed (sig # sigs) c) (watched s)"
    using a b by (auto simp: completed_def intro: filter_cong)
  have e1: "watched s1 = [] \<Longrightarrow> watched s' = []" using b by simp
  have e0: "watched s = [] \<Longrightarrow> watched s1 = []" using a by simp
  from a obtain t1 where t1: "out s1 = Some t1" "teardown (trace s1) = teardown (trace s)
          @ (if watched s \<noteq> [] \<and> watched s1 = [] then [RemoveEos t1, Destroy t1] else [])"
    by blast
  from b obtain t' where t': "out s' = Some t'" "teardown (trace s') = teardown (trace s1)
          @ (if watched s1 \<noteq> [] \<and> watched s' = [] then [RemoveEos t', Destroy t'] else [])"
    by blast
  have o: "watched s1 = [] \<Longrightarrow> t1 = t'" using b t1 t' by simp
  have "teardown (trace s') = teardown (trace s)
          @ (if watched s \<noteq> [] \<and> watched s' = [] then [RemoveEos t', Destroy t'] else [])"
    using t1(2) t'(2) e0 e1 o by (cases "watched s = []"; cases "watched s1 = []") auto
  moreover have "watched s = [] \<longrightarrow> out s' = out s \<and> connects (trace s') = connects (trace s)"
    using a b e0 by simp
  ultimately show ?case using b f t'(1) by blast
qed

section \<open>The open count and the shutdown\<close>






section \<open>No channel\<close>

text \<open>
  C7. When no channel ends up enabled (for each of logs, stats and dockerEvents the flag
  is \<^verbatim>\<open>false\<close> or the token is empty or unset), \<^verbatim>\<open>start\<close> throws the
  configuration error. The trace up to the throw holds the notice and the container
  listing only: no transport has been asked for.
\<close>

theorem no_channel_fatal:
  assumes "logs opts = Some False \<or> \<not> truthy_token (logstoken opts)"
    and "stats opts = Some False \<or> \<not> truthy_token (statstoken opts)"
    and "dockerEvents opts = Some False \<or> \<not> truthy_token (eventstoken opts)"
  shows "\<exists>tr. start opts
             = Inl (Error ''You must provide a key for at least one of logs, stats, or dockerEvents'', tr)
          \<and> tr = [ConsoleLog ''Started successfully, streaming logs ...'', AllContainers]
          \<and> connects tr = 0"
proof -
  have "enabled opts = []"
    using assms by (simp add: enabled_def)
  then show ?thesis
    by (simp add: start_cases connects_def)
qed

theorem no_channel_fatal_witness:
  "(logs no_channel_policy = Some False)
   \<and> \<not> truthy_token (statstoken no_channel_policy)
   \<and> \<not> truthy_token (eventstoken no_channel_policy)
   \<and> start no_channel_policy
       = Inl (Error ''You must provide a key for at least one of logs, stats, or dockerEvents'',
              [ConsoleLog ''Started successfully, streaming logs ...'', AllContainers])"
  using no_channel_fatal [of no_channel_policy]
  by (simp add: no_channel_policy_def example_policy_def)

section \<open>Reconnect\<close>

lemma Write_single:
  "concat (map (\<lambda>chunk. map (\<lambda>t. Write t chunk) [n]) chunks) = map (Write n) chunks"
  by (induction chunks) simp_all

lemma wired_watched_source: "wired s \<Longrightarrow> c \<in> set (watched s) \<Longrightarrow> has_source s c"
  by (simp add: wired_def del: has_source.simps)

lemma pipe_filter_ended: "filter_ended (pipe opts s) = filter_ended s"
  by (simp add: pipe_def connect_def Let_def split: option.splits)

lemma pipe_written: "written (trace (pipe opts s)) = written (trace s)"
  by (simp add: pipe_fields written_def split: option.splits)

lemma source_closed_written:
  "source_closed c s = Inr s' \<Longrightarrow>
   filter_ended s' = filter_ended s \<and> written (trace s') = written (trace s)"
  by (auto simp: source_closed_def streamClosed_def Let_def written_def
      split: if_splits option.splits)

text \<open>Once the filter has been ended, nothing is written any more.\<close>

lemma step_filter_ended:
  assumes "filter_ended s" and "step new_RegExp opts s sig = Inr s'"
  shows "filter_ended s' \<and> written (trace s') = written (trace s)"
proof (cases sig)
  case (Data c obj)
  then show ?thesis using assms by (simp del: has_source.simps)
next
  case (Ended c)
  show ?thesis
  proof (cases "has_source s c")
    case True
    then have "source_closed c (s\<lparr>filter_ended := True\<rparr>) = Inr s'"
      using assms(2) Ended by (simp del: has_source.simps)
    from source_closed_written [OF this] show ?thesis by simp
  next
    case False
    then show ?thesis using assms Ended by (simp del: has_source.simps)
  qed
next
  case (Failed c)
  then have "source_closed c s = Inr s'" using assms(2) by simp
  from source_closed_written [OF this] show ?thesis using assms(1) by simp
next
  case (Closed t)
  then show ?thesis
    using assms by (auto simp: pipe_filter_ended pipe_written split: if_splits)
next
  case (SecureConnect t a)
  then show ?thesis using assms by (auto split: if_splits)
qed

lemma run_filter_ended:
  assumes "filter_ended s" and "run new_RegExp opts s sigs = Inr s'"
  shows "filter_ended s' \<and> written (trace s') = written (trace s)"
  using assms
proof (induction sigs arbitrary: s)
  case Nil
  then show ?case by simp
next
  case (Cons sig sigs)
  from Cons.prems(2) obtain s1 where s1: "step new_RegExp opts s sig = Inr s1"
    and r: "run new_RegExp opts s1 sigs = Inr s'"
    by (auto split: sum.splits)
  from step_filter_ended [OF Cons.prems(1) s1]
  have a: "filter_ended s1" "written (trace s1) = written (trace s)" by simp_all
  from Cons.IH [OF a(1) r] a(2) show ?case by simp
qed

text \<open>
  What the forwarder does for the connection in any state reached from \<^verbatim>\<open>start\<close>.
  While a source is still open, the end of the current transport makes it unpipe the
  transport, connect again with the port, the server and the mode of the first
  connection, and pipe the filter to the new transport alone. What the filter pushes
  afterwards is written to the new transport, as long as the filter has not been
  ended; once it has been ended, by the graceful end of any source, no run writes
  anything. Once the count is down to zero, the end of a transport changes nothing,
  and no run from there adds a connection.
\<close>

lemma reconnect_wiring:
  assumes "start opts = Inr s0" and "run new_RegExp opts s0 sigs = Inr s"
  shows "(if secure opts then TlsConnect 0 (port opts) (server opts)
          else NetCreateConnection 0 (port opts) (server opts)) \<in> set (trace s0)
    \<and> (0 < streamsOpened s \<longrightarrow>
         (\<exists>t s'. out s = Some t \<and> step new_RegExp opts s (Closed t) = Inr s'
            \<and> out s' = Some (created s) \<and> piped s' = [created s] \<and> restart_on s' = [created s]
            \<and> streamsOpened s' = streamsOpened s \<and> filter_ended s' = filter_ended s
            \<and> trace s' = trace s @ [Unpipe t,
                  if secure opts then TlsConnect (created s) (port opts) (server opts)
                  else NetCreateConnection (created s) (port opts) (server opts),
                  Pipe (created s), Eos (created s)]
            \<and> (\<forall>c obj chunks. c \<in> set (watched s') \<and> \<not> filter_ended s'
                    \<and> filter_js new_RegExp opts obj = Inr chunks
                  \<longrightarrow> step new_RegExp opts s' (Data c obj)
                        = Inr (s'\<lparr>trace := trace s' @ map (Write (created s)) chunks\<rparr>))
            \<and> (\<forall>more s''. filter_ended s' \<and> run new_RegExp opts s' more = Inr s''
                  \<longrightarrow> written (trace s'') = written (trace s))))
    \<and> (streamsOpened s \<le> 0 \<longrightarrow>
         (\<forall>t. step new_RegExp opts s (Closed t) = Inr s)
         \<and> (\<forall>more s'. run new_RegExp opts s more = Inr s'
               \<longrightarrow> connects (trace s') = connects (trace s)))"
proof (intro conjI impI)
  note a = start_wired [OF assms(1)]
  then have w0: "wired s0" by simp
  from run_wired [OF w0 assms(2)] have w: "wired s" by simp
  show "(if secure opts then TlsConnect 0 (port opts) (server opts)
          else NetCreateConnection 0 (port opts) (server opts)) \<in> set (trace s0)"
    using a by simp
  {
    assume "0 < streamsOpened s"
    then have ne: "watched s \<noteq> []" using w by (auto simp: wired_def)
    from wired_out [OF w] obtain t where t: "out s = Some t" by blast
    from step_Closed [OF w ne t, of new_RegExp opts] obtain s' where
      s': "step new_RegExp opts s (Closed t) = Inr s'" "wired s'"
      "watched s' = watched s" "out s' = Some (created s)" "piped s' = [created s]"
      "restart_on s' = [created s]" "streamsOpened s' = streamsOpened s"
      "trace s' = trace s @ [Unpipe t,
          if secure opts then TlsConnect (created s) (port opts) (server opts)
          else NetCreateConnection (created s) (port opts) (server opts),
          Pipe (created s), Eos (created s)]"
      by blast
    have r: "t \<in> set (restart_on s)" using w ne t by (auto simp: wired_def)
    have f: "filter_ended s' = filter_ended s"
      using s'(1) r by (auto simp: pipe_filter_ended)
    have x: "written (trace s') = written (trace s)"
      by (simp add: s'(8) written_def)
    have d: "\<forall>c obj chunks. c \<in> set (watched s') \<and> \<not> filter_ended s'
                    \<and> filter_js new_RegExp opts obj = Inr chunks
                  \<longrightarrow> step new_RegExp opts s' (Data c obj)
                        = Inr (s'\<lparr>trace := trace s' @ map (Write (created s)) chunks\<rparr>)"
      using wired_watched_source [OF s'(2)] s'(5)
      by (simp add: Write_single del: has_source.simps)
    have e: "\<forall>more s''. filter_ended s' \<and> run new_RegExp opts s' more = Inr s''
                  \<longrightarrow> written (trace s'') = written (trace s)"
      using run_filter_ended [of s' new_RegExp opts] x by auto
    show "\<exists>t s'. out s = Some t \<and> step new_RegExp opts s (Closed t) = Inr s'
            \<and> out s' = Some (created s) \<and> piped s' = [created s] \<and> restart_on s' = [created s]
            \<and> streamsOpened s' = streamsOpened s \<and> filter_ended s' = filter_ended s
            \<and> trace s' = trace s @ [Unpipe t,
                  if secure opts then TlsConnect (created s) (port opts) (server opts)
                  else NetCreateConnection (created s) (port opts) (server opts),
                  Pipe (created s), Eos (created s)]
            \<and> (\<forall>c obj chunks. c \<in> set (watched s') \<and> \<not> filter_ended s'
                    \<and> filter_js new_RegExp opts obj = Inr chunks
                  \<longrightarrow> step new_RegExp opts s' (Data c obj)
                        = Inr (s'\<lparr>trace := trace s' @ map (Write (created s)) chunks\<rparr>))
            \<and> (\<forall>more s''. filter_ended s' \<and> run new_RegExp opts s' more = Inr s''
                  \<longrightarrow> written (trace s'') = written (trace s))"
      using t s' f d e by blast
  }
  {
    assume "streamsOpened s \<le> 0"
    then have e: "watched s = []" using w by (auto simp: wired_def)
    show "\<forall>t. step new_RegExp opts s (Closed t) = Inr s"
      using step_Closed_idle [OF w] e by blast
    show "\<forall>more s'. run new_RegExp opts s more = Inr s'
               \<longrightarrow> connects (trace s') = connects (trace s)"
      using run_wired [OF w] e by blast
  }
qed

text \<open>
  C4. Reconnect continuity fails on the code where one source ends gracefully while
  others stay open. With all three channels enabled, let the stats source end and then the
  transport close. Two sources remain open, the forwarder connects again and pipes
  the filter to the new transport; but lines 106, 112 and 118 pipe the sources into
  the filter without \<^verbatim>\<open>{ end: false }\<close>, which line 162 does pass for the transport,
  so the end of the stats source has ended the filter: the log event that arrives
  next, and that the filter would pass, is written nowhere. When the stats source
  ends by an error instead, the same event is written to the new transport.
\<close>

theorem reconnect_after_graceful_end:
  \<open>filter_js literal_RegExp all_channels_policy example_event
     = Inr [''ABC'', '' '', ''{"line":"hello","name":"web1","image":"nginx","host":"myhost"}'',
            [CHR 0x0A]]
   \<and> (case start all_channels_policy of
        Inl e \<Rightarrow> False
      | Inr s0 \<Rightarrow>
          (case run literal_RegExp all_channels_policy s0
                  [Ended Stats, Closed 0, Data Loghose example_event] of
             Inl e \<Rightarrow> False
           | Inr s \<Rightarrow>
               streamsOpened s = 2 \<and> watched s = [Loghose, DockerEvents]
             \<and> connects (trace s) = 2 \<and> out s = Some 1 \<and> piped s = [1]
             \<and> filter_ended s \<and> written (trace s) = [])
        \<and> (case run literal_RegExp all_channels_policy s0
                  [Failed Stats, Closed 0, Data Loghose example_event] of
             Inl e \<Rightarrow> False
           | Inr s \<Rightarrow>
               streamsOpened s = 2 \<and> watched s = [Loghose, DockerEvents]
             \<and> connects (trace s) = 2 \<and> out s = Some 1 \<and> piped s = [1]
             \<and> \<not> filter_ended s
             \<and> written (trace s)
                 = [Write 1 ''ABC'', Write 1 '' '',
                    Write 1 ''{"line":"hello","name":"web1","image":"nginx","host":"myhost"}'',
                    Write 1 [CHR 0x0A]]))\<close>
  by code_simp

section \<open>The secure connection\<close>

lemma run_append:
  "run new_RegExp opts s (xs @ ys) =
     (case run new_RegExp opts s xs of Inl e \<Rightarrow> Inl e | Inr s' \<Rightarrow> run new_RegExp opts s' ys)"
  by (induction xs arbitrary: s) (auto split: sum.splits)

lemma start_onSecure:
  assumes "secure opts" and "start opts = Inr s0"
  shows "created s0 = 1 \<and> onSecure s0 = [0]"
proof -
  have "s0 = watch_source DockerEvents (watch_source Stats (watch_source Loghose
             (pipe opts (open_source opts DockerEvents (open_source opts Stats
                (open_source opts Loghose initial))))))"
    using assms(2) by (simp add: start_cases split: if_splits)
  then show ?thesis
    using assms(1) by (simp add: start_fields del: has_source.simps channel_on.simps)
qed

lemma step_onSecure:
  assumes "secure opts" and "step new_RegExp opts s sig = Inr s'"
    and "\<forall>t < created s. t \<notin> A \<longrightarrow> t \<in> set (onSecure s)"
  shows "\<forall>t < created s'. t \<notin> A \<and> sig \<noteq> SecureConnect t True \<longrightarrow> t \<in> set (onSecure s')"
proof (cases sig)
  case (Data c obj)
  then show ?thesis using assms by (auto split: if_splits sum.splits)
next
  case (Ended c)
  then show ?thesis
    using assms
    by (auto simp: source_closed_def streamClosed_def Let_def split: if_splits option.splits)
next
  case (Failed c)
  then show ?thesis
    using assms
    by (auto simp: source_closed_def streamClosed_def Let_def split: if_splits option.splits)
next
  case (Closed t')
  then show ?thesis
    using assms by (auto simp: pipe_fields less_Suc_eq split: if_splits)
next
  case (SecureConnect t' a)
  then show ?thesis
    using assms by (cases a) (auto split: if_splits)
qed

lemma run_onSecure:
  assumes "secure opts" and "run new_RegExp opts s sigs = Inr s'"
    and "\<forall>t < created s. t \<notin> A \<longrightarrow> t \<in> set (onSecure s)"
  shows "\<forall>t < created s'. t \<notin> A \<and> SecureConnect t True \<notin> set sigs \<longrightarrow> t \<in> set (onSecure s')"
  using assms(2,3)
proof (induction sigs arbitrary: s A)
  case Nil
  then show ?case by simp
next
  case (Cons sig sigs)
  from Cons.prems(1) obtain s1 where s1: "step new_RegExp opts s sig = Inr s1"
    and r: "run new_RegExp opts s1 sigs = Inr s'"
    by (auto split: sum.splits)
  have "\<forall>t < created s1. t \<notin> A \<union> {t. sig = SecureConnect t True} \<longrightarrow> t \<in> set (onSecure s1)"
    using step_onSecure [OF assms(1) s1 Cons.prems(2)] by auto
  from Cons.IH [OF r this] show ?case by auto
qed

text \<open>
  C8. In secure mode, take any state reached from \<^verbatim>\<open>start\<close> and any transport made
  so far whose handshake has not completed before. If its handshake now completes with
  the stream not authorized, the callback throws: the run ends there with the error
  and the trace as it was, whatever signals were still to come, so nothing is
  reconnected.
\<close>

theorem fail_closed_secure_connect:
  assumes "secure opts" and "start opts = Inr s0" and "run new_RegExp opts s0 sigs = Inr s"
    and "t < created s" and "SecureConnect t True \<notin> set sigs"
  shows "step new_RegExp opts s (SecureConnect t False)
           = Inl (Error ''secure connection not authorized'', trace s)
       \<and> run new_RegExp opts s0 (sigs @ SecureConnect t False # rest)
           = Inl (Error ''secure connection not authorized'', trace s)"
proof -
  have "\<forall>t < created s0. t \<notin> {} \<longrightarrow> t \<in> set (onSecure s0)"
    using start_onSecure [OF assms(1,2)] by simp
  from run_onSecure [OF assms(1,3) this] assms(4,5)
  have "t \<in> set (onSecure s)" by simp
  then have a: "step new_RegExp opts s (SecureConnect t False)
           = Inl (Error ''secure connection not authorized'', trace s)"
    by simp
  then show ?thesis
    by (simp add: run_append assms(3))
qed

theorem fail_closed_secure_connect_witness:
  "secure secure_policy
   \<and> (\<exists>s0 s. start secure_policy = Inr s0
        \<and> run literal_RegExp secure_policy s0 [Closed 0] = Inr s
        \<and> 1 < created s
        \<and> run literal_RegExp secure_policy s0 ([Closed 0] @ SecureConnect 1 False # [Closed 1])
            = Inl (Error ''secure connection not authorized'', trace s))"
proof -
  have c: "secure secure_policy"
    by (simp add: secure_policy_def)
  have x: "case start secure_policy of
          Inl e \<Rightarrow> False
        | Inr s0 \<Rightarrow>
            (case run literal_RegExp secure_policy s0 [Closed 0] of
               Inl e \<Rightarrow> False
             | Inr s \<Rightarrow> 1 < created s)"
    by code_simp
  obtain s0 where a: "start secure_policy = Inr s0"
    using x by (cases "start secure_policy") (simp_all only: sum.case)
  have y: "case run literal_RegExp secure_policy s0 [Closed 0] of
               Inl e \<Rightarrow> False
             | Inr s \<Rightarrow> 1 < created s"
    using x unfolding a by (simp only: sum.case)
  obtain s where b: "run literal_RegExp secure_policy s0 [Closed 0] = Inr s"
    using y by (cases "run literal_RegExp secure_policy s0 [Closed 0]") (simp_all only: sum.case)
  have o: "1 < created s"
    using y unfolding b by (simp only: sum.case)
  have n: "SecureConnect 1 True \<notin> set [Closed 0]" by simp
  from fail_closed_secure_connect [OF c a b o n, of "[Closed 1]"]
  have "run literal_RegExp secure_policy s0 ([Closed 0] @ SecureConnect 1 False # [Closed 1])
            = Inl (Error ''secure connection not authorized'', trace s)"
    by (elim conjE)
  with c a b o show ?thesis by blast
qed

end
